theory Spec2Isabelle
  imports Complex_Main
begin

section \<open>Python strings and the built-in \<open>int(text, 16)\<close>\<close>

text \<open>
  The notebook \<^verbatim>\<open>interactive-widgets\<close> is Python 3. A Python \<open>str\<close> is a sequence of code
  points; the model covers the code points 0..255, one \<^typ>\<open>char\<close> each (Latin-1), which
  contains every character an HTML hex colour or colour name is written with.
  The only exception the modelled code raises is \<open>ValueError\<close>.
\<close>

datatype py_error = ValueError

text \<open>\<^verbatim>\<open>s.lstrip(chars)\<close>: drops the longest prefix made of characters of \<open>chars\<close>.\<close>

definition lstrip :: "string \<Rightarrow> string \<Rightarrow> string" where
  "lstrip chars s = dropWhile (\<lambda>c. c \<in> set chars) s"

text \<open>\<^verbatim>\<open>s[i:j]\<close> for \<open>0 \<le> i \<le> j\<close>: slicing clips at the end of the string and never raises.\<close>

definition slice :: "string \<Rightarrow> nat \<Rightarrow> nat \<Rightarrow> string" where
  "slice s i j = take (j - i) (drop i s)"

text \<open>\<^verbatim>\<open>range(start, stop, step)\<close> for a positive step.\<close>

definition py_range :: "nat \<Rightarrow> nat \<Rightarrow> nat \<Rightarrow> nat list" where
  "py_range start stop step = filter (\<lambda>i. (i - start) mod step = 0) [start..<stop]"

text \<open>
  CPython's \<open>int(text, 16)\<close> on a \<open>str\<close> (\<open>PyLong_FromUnicodeObject\<close>, then
  \<open>PyLong_FromString\<close> with base 16):
  \<^item> \<open>Py_ISSPACE\<close>: the six ASCII white-space characters;
  \<^item> \<open>_PyLong_DigitValue\<close>: 0..9 for the decimal digits, 10..35 for the letters of either
    case, 37 for everything else;
  \<^item> a text that is not pure ASCII is first rewritten
    (\<open>_PyUnicode_TransformDecimalAndSpaceToASCII\<close>): a code point below 127 is kept, a
    Unicode space (in Latin-1: U+0085 and U+00A0) becomes a blank, and at the first other
    character (Latin-1 has no decimal digits beyond ASCII) the text is cut and ends in \<open>?\<close>;
  \<^item> the C parser reads up to the first NUL, and the caller rejects a parse that did not
    consume the whole buffer, so a text holding a NUL is always rejected;
  \<^item> the parser skips leading white space, takes one optional sign, one optional prefix
    \<open>0x\<close> or \<open>0X\<close> with one optional underscore after it, refuses a leading underscore,
    scans digits below 16 with single underscores between them (no doubled and no trailing
    underscore), refuses an empty digit run, skips trailing white space and refuses
    anything left over. Every refusal is a \<open>ValueError\<close>.
\<close>

definition Py_ISSPACE :: "char \<Rightarrow> bool" where
  "Py_ISSPACE c \<longleftrightarrow>
     c = CHR '' '' \<or> c = CHR 0x09 \<or> c = CHR 0x0A \<or> c = CHR 0x0B \<or> c = CHR 0x0C \<or> c = CHR 0x0D"

definition digit_value :: "char \<Rightarrow> nat" where
  "digit_value c =
     (let k = (of_char c :: nat) in
      if 48 \<le> k \<and> k \<le> 57 then k - 48
      else if 97 \<le> k \<and> k \<le> 122 then k - 87
      else if 65 \<le> k \<and> k \<le> 90 then k - 55
      else 37)"

fun transform_to_ascii :: "string \<Rightarrow> string" where
  "transform_to_ascii [] = []"
| "transform_to_ascii (c # cs) =
     (if (of_char c :: nat) < 127 then c # transform_to_ascii cs
      else if c = CHR 0x85 \<or> c = CHR 0xA0 then CHR '' '' # transform_to_ascii cs
      else [CHR ''?''])"

definition to_ascii :: "string \<Rightarrow> string" where
  "to_ascii u = (if list_all (\<lambda>c. (of_char c :: nat) < 128) u then u else transform_to_ascii u)"

text \<open>
  The digit scan of \<open>long_from_binary_base\<close>: \<open>prev\<close> is the character read last (NUL at
  the start), \<open>acc\<close> the value so far. It returns the value and the unread rest, or
  \<open>None\<close> on a doubled or trailing underscore.
\<close>

fun scan_digits :: "char \<Rightarrow> nat \<Rightarrow> string \<Rightarrow> (nat \<times> string) option" where
  "scan_digits prev acc [] = (if prev = CHR ''_'' then None else Some (acc, []))"
| "scan_digits prev acc (c # cs) =
     (if digit_value c < 16 \<or> c = CHR ''_'' then
        (if c = CHR ''_'' then
           (if prev = CHR ''_'' then None else scan_digits c acc cs)
         else scan_digits c (16 * acc + digit_value c) cs)
      else if prev = CHR ''_'' then None
      else Some (acc, c # cs))"

fun skip_sign :: "string \<Rightarrow> bool \<times> string" where
  "skip_sign (c # cs) =
     (if c = CHR ''+'' then (False, cs)
      else if c = CHR ''-'' then (True, cs)
      else (False, c # cs))"
| "skip_sign [] = (False, [])"

fun skip_prefix16 :: "string \<Rightarrow> string" where
  "skip_prefix16 (a # b # cs) =
     (if a = CHR ''0'' \<and> (b = CHR ''x'' \<or> b = CHR ''X'') then
        (case cs of c # ds \<Rightarrow> if c = CHR ''_'' then ds else cs | [] \<Rightarrow> cs)
      else a # b # cs)"
| "skip_prefix16 cs = cs"

definition PyLong_FromString16 :: "string \<Rightarrow> int option" where
  "PyLong_FromString16 b =
     (let (negative, s2) = skip_sign (dropWhile Py_ISSPACE b);
          s3 = skip_prefix16 s2
      in if take 1 s3 = ''_'' then None
         else (case scan_digits (CHR 0x00) 0 s3 of
                 None \<Rightarrow> None
               | Some (v, rest) \<Rightarrow>
                   if rest = s3 then None
                   else if dropWhile Py_ISSPACE rest \<noteq> [] then None
                   else Some (if negative then - int v else int v)))"

definition int16 :: "string \<Rightarrow> py_error + int" where
  "int16 u =
     (let b = to_ascii u in
      if CHR 0x00 \<in> set b then Inl ValueError
      else (case PyLong_FromString16 b of None \<Rightarrow> Inl ValueError | Some v \<Rightarrow> Inr v))"

section \<open>The notebook's \<open>hex2rgb\<close>\<close>

text \<open>
  A list comprehension evaluates its elements in order and the first exception leaves it.
\<close>

fun comprehension :: "(py_error + 'a) list \<Rightarrow> py_error + 'a list" where
  "comprehension [] = Inr []"
| "comprehension (Inl e # _) = Inl e"
| "comprehension (Inr v # rs) =
     (case comprehension rs of Inl e \<Rightarrow> Inl e | Inr vs \<Rightarrow> Inr (v # vs))"

text \<open>
  \<^verbatim>\<open>
  def hex2rgb(s):
      s = s.lstrip("#")
      return [int(s[i:i+2], 16) for i in range(0,5,2)]
  \<close>
\<close>

definition hex2rgb :: "string \<Rightarrow> py_error + int list" where
  "hex2rgb s0 =
     (let s = lstrip ''#'' s0
      in comprehension (map (\<lambda>i. int16 (slice s i (i + 2))) (py_range 0 5 2)))"

text \<open>
  The reading of a hexadecimal digit that the specification of the value transform
  relies on, as a table: the sixteen digits, letters of either case.
\<close>

definition hex_digit_table :: "(char \<times> int) list" where
  "hex_digit_table =
     [(CHR ''0'', 0), (CHR ''1'', 1), (CHR ''2'', 2), (CHR ''3'', 3), (CHR ''4'', 4),
      (CHR ''5'', 5), (CHR ''6'', 6), (CHR ''7'', 7), (CHR ''8'', 8), (CHR ''9'', 9),
      (CHR ''a'', 10), (CHR ''b'', 11), (CHR ''c'', 12), (CHR ''d'', 13), (CHR ''e'', 14),
      (CHR ''f'', 15),
      (CHR ''A'', 10), (CHR ''B'', 11), (CHR ''C'', 12), (CHR ''D'', 13), (CHR ''E'', 14),
      (CHR ''F'', 15)]"

definition hexval :: "char \<Rightarrow> int option" where
  "hexval c = map_of hex_digit_table c"

text \<open>
  The words of the claims about texts that \<open>hex2rgb\<close> rejects: a hexadecimal digit (by
  the table above); a text that begins with six of them; the white space that \<open>int\<close>
  accepts around a number (in Latin-1: the six ASCII characters, U+0085 and U+00A0); and
  the texts of at most two characters that are base-16 literals for \<open>int\<close>: one or two
  hexadecimal digits, or one hexadecimal digit with a sign or white space before it, or
  with white space after it.
\<close>

definition hex_digit :: "char \<Rightarrow> bool" where
  "hex_digit c \<longleftrightarrow> hexval c \<noteq> None"

definition begins_with_six_hex_digits :: "string \<Rightarrow> bool" where
  "begins_with_six_hex_digits s \<longleftrightarrow> 6 \<le> length s \<and> list_all hex_digit (take 6 s)"

definition int_space :: "char \<Rightarrow> bool" where
  "int_space c \<longleftrightarrow> Py_ISSPACE c \<or> c = CHR 0x85 \<or> c = CHR 0xA0"

fun short_literal :: "string \<Rightarrow> bool" where
  "short_literal [a] = hex_digit a"
| "short_literal [a, b] =
     (hex_digit a \<and> hex_digit b
      \<or> (int_space a \<or> a = CHR ''+'' \<or> a = CHR ''-'') \<and> hex_digit b
      \<or> hex_digit a \<and> int_space b)"
| "short_literal _ = False"

section \<open>The drawing library, the random generator and the notebook's output\<close>

text \<open>
  Numbers reach the drawing library either as Python integers (slider values, literals)
  or as floats drawn from numpy's generator. The notebook never computes with the floats
  it draws, so their type \<open>'f\<close> stays abstract.
\<close>

datatype 'f num = IntN int | FloatN 'f

text \<open>
  Flat's colours and pens. \<^verbatim>\<open>shape()\<close> makes a pen with a black stroke and no fill;
  \<^verbatim>\<open>.fill(c)\<close>, \<^verbatim>\<open>.stroke(c)\<close>, \<^verbatim>\<open>.nostroke()\<close> and \<^verbatim>\<open>.nofill()\<close> set one attribute
  and return the pen.
\<close>

datatype 'f color = gray "'f num" | rgb "'f num" "'f num" "'f num"
  | rgba "'f num" "'f num" "'f num" "'f num"

record 'f pen =
  strokecolor :: "'f color option"
  fillcolor :: "'f color option"

definition shape :: "'f pen" where
  "shape = \<lparr>strokecolor = Some (gray (IntN 0)), fillcolor = None\<rparr>"

definition fill :: "'f color \<Rightarrow> 'f pen \<Rightarrow> 'f pen" where
  "fill c p = p\<lparr>fillcolor := Some c\<rparr>"

definition stroke :: "'f color \<Rightarrow> 'f pen \<Rightarrow> 'f pen" where
  "stroke c p = p\<lparr>strokecolor := Some c\<rparr>"

definition nostroke :: "'f pen \<Rightarrow> 'f pen" where
  "nostroke p = p\<lparr>strokecolor := None\<rparr>"

definition nofill :: "'f pen \<Rightarrow> 'f pen" where
  "nofill p = p\<lparr>fillcolor := None\<rparr>"

text \<open>
  \<^verbatim>\<open>pen.rectangle(x, y, width, height)\<close> and \<^verbatim>\<open>pen.ellipse(x, y, rx, ry)\<close> make a shape
  carrying the pen's style; \<^verbatim>\<open>document(w, h, units).addpage()\<close> makes an empty page of that
  size; \<^verbatim>\<open>page.place(item)\<close> appends the item to the page.
\<close>

datatype 'f item =
  rectangle "'f pen" "'f num" "'f num" "'f num" "'f num"
  | ellipse "'f pen" "'f num" "'f num" "'f num" "'f num"

record 'f page =
  width :: int
  height :: int
  units :: string
  items :: "'f item list"

record document =
  doc_width :: int
  doc_height :: int
  doc_units :: string

definition document :: "int \<Rightarrow> int \<Rightarrow> string \<Rightarrow> document" where
  "document w h u = \<lparr>doc_width = w, doc_height = h, doc_units = u\<rparr>"

definition addpage :: "document \<Rightarrow> 'f page" where
  "addpage d = \<lparr>width = doc_width d, height = doc_height d, units = doc_units d, items = []\<rparr>"

definition place :: "'f item \<Rightarrow> 'f page \<Rightarrow> 'f page" where
  "place it p = p\<lparr>items := items p @ [it]\<rparr>"

text \<open>
  numpy's global generator. Its algorithm is outside the notebook, so it is a parameter:
  the state \<open>seed_state s\<close> that \<^verbatim>\<open>np.random.seed(s)\<close> installs, and for each kind of draw
  the value returned and the state left behind. \<^verbatim>\<open>np.random.uniform(a)\<close> has one
  positional argument (it binds to \<open>low\<close>), \<^verbatim>\<open>np.random.normal(m, s)\<close> two.
\<close>

record ('g, 'f) numpy_random =
  seed_state :: "int \<Rightarrow> 'g"
  uniform_draw :: "int \<Rightarrow> 'g \<Rightarrow> 'f \<times> 'g"
  normal_draw :: "int \<Rightarrow> int \<Rightarrow> 'g \<Rightarrow> 'f \<times> 'g"

text \<open>
  One draw, as it is observed: the call with its arguments and the value it returned.
\<close>

datatype 'f draw = Uniform int 'f | Normal int int 'f

fun drawn :: "'f draw \<Rightarrow> 'f" where
  "drawn (Uniform low v) = v"
| "drawn (Normal m s v) = v"

text \<open>
  The state of the Python process that the notebook's functions touch: the state of the
  global generator, the trace of the draws made so far, and what has been displayed in
  the notebook.
\<close>

record ('g, 'f, 'o) world =
  gen :: 'g
  draws :: "'f draw list"
  displayed :: "'o list"

text \<open>\<^verbatim>\<open>np.random.seed(s)\<close> raises \<open>ValueError\<close> unless \<open>0 \<le> s < 2^32\<close>.\<close>

definition np_random_seed ::
  "('g, 'f) numpy_random \<Rightarrow> int \<Rightarrow> ('g, 'f, 'o) world \<Rightarrow> py_error + ('g, 'f, 'o) world" where
  "np_random_seed rng s w =
     (if 0 \<le> s \<and> s < 2 ^ 32 then Inr (w\<lparr>gen := seed_state rng s\<rparr>) else Inl ValueError)"

definition np_random_uniform ::
  "('g, 'f) numpy_random \<Rightarrow> int \<Rightarrow> ('g, 'f, 'o) world \<Rightarrow> 'f \<times> ('g, 'f, 'o) world" where
  "np_random_uniform rng low w =
     (let (v, g) = uniform_draw rng low (gen w)
      in (v, w\<lparr>gen := g, draws := draws w @ [Uniform low v]\<rparr>))"

definition np_random_normal ::
  "('g, 'f) numpy_random \<Rightarrow> int \<Rightarrow> int \<Rightarrow> ('g, 'f, 'o) world \<Rightarrow> 'f \<times> ('g, 'f, 'o) world" where
  "np_random_normal rng m s w =
     (let (v, g) = normal_draw rng m s (gen w)
      in (v, w\<lparr>gen := g, draws := draws w @ [Normal m s v]\<rparr>))"

text \<open>
  \<^verbatim>\<open>
  def show(page):
      display(SVG(page.svg()))
  \<close>
  The serialisation \<open>svg\<close> belongs to the drawing library and is a parameter.
\<close>

definition show_page ::
  "('f page \<Rightarrow> 'o) \<Rightarrow> 'f page \<Rightarrow> ('g, 'f, 'o) world \<Rightarrow> ('g, 'f, 'o) world" where
  "show_page svg p w = w\<lparr>displayed := displayed w @ [svg p]\<rparr>"

text \<open>\<^verbatim>\<open>for i in range(n): body\<close>, for a body that does not read \<open>i\<close>.\<close>

fun for_range :: "nat \<Rightarrow> ('s \<Rightarrow> 's) \<Rightarrow> 's \<Rightarrow> 's" where
  "for_range 0 body s = s"
| "for_range (Suc k) body s = for_range k body (body s)"

section \<open>The notebook's render functions\<close>

text \<open>
  \<^verbatim>\<open>
  def disp_square(size=40):
      page = document(80, 80, 'mm').addpage()
      pen = shape().fill(rgb(120, 40, 160)).nostroke()
      page.place(pen.rectangle(10, 10, size, size))
      show(page)
  \<close>
  The parameter \<open>size\<close> is written \<open>sz\<close> here and below.
\<close>

definition disp_square ::
  "('f page \<Rightarrow> 'o) \<Rightarrow> 'f num \<Rightarrow> ('g, 'f, 'o) world \<Rightarrow> ('g, 'f, 'o) world" where
  "disp_square svg sz w =
     (let page = addpage (document 80 80 ''mm'');
          pen = nostroke (fill (rgb (IntN 120) (IntN 40) (IntN 160)) shape);
          page = place (rectangle pen (IntN 10) (IntN 10) sz sz) page
      in show_page svg page w)"

text \<open>
  The loop body shared, word for word, by \<open>rand_ellipses\<close> and \<open>rand_ellipses_seed\<close>:
  \<^verbatim>\<open>
        r = np.random.uniform(255)
        g = np.random.uniform(255)
        b = np.random.uniform(255)
        x = np.random.uniform(80)
        y = np.random.uniform(80)
        size = np.random.uniform(40)
        pen = shape().nostroke().fill(rgb(r, g, b))
        page.place(pen.ellipse(x, y, size, size))
  \<close>
\<close>

definition ellipse_step ::
  "('g, 'f) numpy_random \<Rightarrow> 'f page \<times> ('g, 'f, 'o) world \<Rightarrow> 'f page \<times> ('g, 'f, 'o) world" where
  "ellipse_step rng = (\<lambda>(page, w0).
     let (r, w1) = np_random_uniform rng 255 w0;
         (g, w2) = np_random_uniform rng 255 w1;
         (b, w3) = np_random_uniform rng 255 w2;
         (x, w4) = np_random_uniform rng 80 w3;
         (y, w5) = np_random_uniform rng 80 w4;
         (sz, w6) = np_random_uniform rng 40 w5;
         pen = fill (rgb (FloatN r) (FloatN g) (FloatN b)) (nostroke shape)
     in (place (ellipse pen (FloatN x) (FloatN y) (FloatN sz) (FloatN sz)) page, w6))"

text \<open>
  \<^verbatim>\<open>
  def rand_ellipses(n=10):
      page = document(80, 80, 'mm').addpage()
      for i in range(n):
          ...
      show(page)
  \<close>
\<close>

definition rand_ellipses ::
  "('g, 'f) numpy_random \<Rightarrow> ('f page \<Rightarrow> 'o) \<Rightarrow> int \<Rightarrow> ('g, 'f, 'o) world \<Rightarrow> ('g, 'f, 'o) world" where
  "rand_ellipses rng svg n w =
     (let page = addpage (document 80 80 ''mm'');
          (page, w) = for_range (nat n) (ellipse_step rng) (page, w)
      in show_page svg page w)"

text \<open>
  \<^verbatim>\<open>
  def rand_ellipses_seed(n=10):
      np.random.seed(12345)
      page = document(80, 80, 'mm').addpage()
      for i in range(n):
          ...
      show(page)
  \<close>
\<close>

definition rand_ellipses_seed ::
  "('g, 'f) numpy_random \<Rightarrow> ('f page \<Rightarrow> 'o) \<Rightarrow> int \<Rightarrow> ('g, 'f, 'o) world
     \<Rightarrow> py_error + ('g, 'f, 'o) world" where
  "rand_ellipses_seed rng svg n w =
     (case np_random_seed rng 12345 w of
        Inl e \<Rightarrow> Inl e
      | Inr w \<Rightarrow>
          let page = addpage (document 80 80 ''mm'');
              (page, w) = for_range (nat n) (ellipse_step rng) (page, w)
          in Inr (show_page svg page w))"

text \<open>
  \<^verbatim>\<open>
  def rand_alpha_ellipses(n=10, alpha=255, max_size=40, pos_dist='uniform', seed=12345):
      np.random.seed(seed)
      page = document(80, 80, 'mm').addpage()
      for i in range(n):
          r = np.random.uniform(255)
          g = np.random.uniform(255)
          b = np.random.uniform(255)
          if pos_dist == 'uniform':
              x = np.random.uniform(80)
              y = np.random.uniform(80)
          else:
              x = np.random.normal(40, 20)
              y = np.random.normal(40, 20)
          size = np.random.uniform(max_size)
          pen = shape().nostroke().fill(rgba(r, g, b, alpha))
          page.place(pen.ellipse(x, y, size, size))
      show(page)
  \<close>
\<close>

definition alpha_ellipse_step ::
  "('g, 'f) numpy_random \<Rightarrow> int \<Rightarrow> int \<Rightarrow> string
     \<Rightarrow> 'f page \<times> ('g, 'f, 'o) world \<Rightarrow> 'f page \<times> ('g, 'f, 'o) world" where
  "alpha_ellipse_step rng alpha max_size pos_dist = (\<lambda>(page, w0).
     let (r, w1) = np_random_uniform rng 255 w0;
         (g, w2) = np_random_uniform rng 255 w1;
         (b, w3) = np_random_uniform rng 255 w2;
         ((x, y), w5) =
           (if pos_dist = ''uniform'' then
              let (x, w4) = np_random_uniform rng 80 w3;
                  (y, w5) = np_random_uniform rng 80 w4
              in ((x, y), w5)
            else
              let (x, w4) = np_random_normal rng 40 20 w3;
                  (y, w5) = np_random_normal rng 40 20 w4
              in ((x, y), w5));
         (sz, w6) = np_random_uniform rng max_size w5;
         pen = fill (rgba (FloatN r) (FloatN g) (FloatN b) (IntN alpha)) (nostroke shape)
     in (place (ellipse pen (FloatN x) (FloatN y) (FloatN sz) (FloatN sz)) page, w6))"

definition rand_alpha_ellipses ::
  "('g, 'f) numpy_random \<Rightarrow> ('f page \<Rightarrow> 'o) \<Rightarrow> int \<Rightarrow> int \<Rightarrow> int \<Rightarrow> string \<Rightarrow> int
     \<Rightarrow> ('g, 'f, 'o) world \<Rightarrow> py_error + ('g, 'f, 'o) world" where
  "rand_alpha_ellipses rng svg n alpha max_size pos_dist seed w =
     (case np_random_seed rng seed w of
        Inl e \<Rightarrow> Inl e
      | Inr w \<Rightarrow>
          let page = addpage (document 80 80 ''mm'');
              (page, w) = for_range (nat n) (alpha_ellipse_step rng alpha max_size pos_dist) (page, w)
          in Inr (show_page svg page w))"

text \<open>
  What the claims say of a scene, as functions of the values drawn: the circles that six
  draws each describe (no stroke, the fill of the first three values, the centre of the
  next two, both radii the sixth), and whether a shape is a circle.
\<close>

fun circles_of :: "'f list \<Rightarrow> 'f item list" where
  "circles_of (r # g # b # x # y # s # rest) =
     ellipse \<lparr>strokecolor = None, fillcolor = Some (rgb (FloatN r) (FloatN g) (FloatN b))\<rparr>
       (FloatN x) (FloatN y) (FloatN s) (FloatN s) # circles_of rest"
| "circles_of _ = []"

fun alpha_circles_of :: "int \<Rightarrow> 'f list \<Rightarrow> 'f item list" where
  "alpha_circles_of alpha (r # g # b # x # y # s # rest) =
     ellipse \<lparr>strokecolor = None,
              fillcolor = Some (rgba (FloatN r) (FloatN g) (FloatN b) (IntN alpha))\<rparr>
       (FloatN x) (FloatN y) (FloatN s) (FloatN s) # alpha_circles_of alpha rest"
| "alpha_circles_of alpha _ = []"

fun is_circle :: "'f item \<Rightarrow> bool" where
  "is_circle (ellipse p x y rx ry) = (rx = ry)"
| "is_circle (rectangle p x y w h) = False"

text \<open>The kind of a draw: the call without the value it returned.\<close>

datatype call = UniformCall int | NormalCall int int

fun call_of :: "'f draw \<Rightarrow> call" where
  "call_of (Uniform low v) = UniformCall low"
| "call_of (Normal m s v) = NormalCall m s"

text \<open>
  The draws of a sequence of calls as a function of the generator's state alone: what the
  generator returns for each call in turn, and the state it is left in.
\<close>

fun draw_call :: "('g, 'f) numpy_random \<Rightarrow> call \<Rightarrow> 'g \<Rightarrow> 'f draw \<times> 'g" where
  "draw_call rng (UniformCall low) g = (let (v, g') = uniform_draw rng low g in (Uniform low v, g'))"
| "draw_call rng (NormalCall m s) g = (let (v, g') = normal_draw rng m s g in (Normal m s v, g'))"

fun draw_calls :: "('g, 'f) numpy_random \<Rightarrow> call list \<Rightarrow> 'g \<Rightarrow> 'f draw list \<times> 'g" where
  "draw_calls rng [] g = ([], g)"
| "draw_calls rng (c # cs) g =
     (let (d, g1) = draw_call rng c g; (ds, g2) = draw_calls rng cs g1 in (d # ds, g2))"

text \<open>The six calls of one iteration, by the distribution chosen for the position.\<close>

definition circle_calls :: "call \<Rightarrow> int \<Rightarrow> call list" where
  "circle_calls position max_size =
     [UniformCall 255, UniformCall 255, UniformCall 255, position, position,
      UniformCall max_size]"

text \<open>
  A concrete generator and a concrete process state, to run the render functions on
  concrete inputs: the generator's state is a counter.
\<close>

definition counter_random :: "(nat, nat) numpy_random" where
  "counter_random =
     \<lparr>seed_state = (\<lambda>s. nat s),
      uniform_draw = (\<lambda>low g. ((7 * g + nat low) mod 101, g + 1)),
      normal_draw = (\<lambda>m s g. ((3 * g + nat m + nat s) mod 17, g + 2))\<rparr>"

definition idle_process :: "(nat, nat, nat page) world" where
  "idle_process = \<lparr>gen = 7, draws = [Uniform 1 3], displayed = []\<rparr>"

section \<open>The Control Registry and the Render Dispatcher\<close>

text \<open>
  The notebook only calls the widget library (\<^verbatim>\<open>widgets.IntSlider(min=0, max=10)\<close>,
  \<^verbatim>\<open>widgets.interact(disp_square, size=size_slider)\<close>); the code that stores a control's
  value, notifies listeners and re-invokes the render function is not part of the
  notebook. The specification describes it as two components, which are modelled here
  from its sections 3, 4.1 and 4.2.
\<close>

text \<open>Modelled from the spec: the kinds of a Control (section 3), absent from the source.\<close>

datatype kind = IntegerRange | RealRange | FreeText | Boolean | EnumeratedChoice | Colour

text \<open>Modelled from the spec: the update mode of a Control (section 3), absent from the source.\<close>

datatype update_mode = Immediate | OnCommit

text \<open>Modelled from the spec: the error taxonomy of section 7, absent from the source.\<close>

datatype registry_error =
  InvalidBoundsError | OutOfRangeError | InvalidChoiceError | UnboundParameterError

text \<open>
  Modelled from the spec: the values a Control holds, by kind (a number for the two range
  kinds, a text for free text, colours and choices, a truth value); absent from the source.
\<close>

datatype cvalue = NumV real | TextV string | BoolV bool

text \<open>
  Modelled from the spec: the bounds of a Control, "min, max, step where applicable"
  (section 3); absent from the source.
\<close>

record bounds =
  bmin :: real
  bmax :: real
  bstep :: "real option"

text \<open>
  Modelled from the spec: a Control (section 3) with the listeners subscribed to it, in the
  order of registration; a listener is a callback run on the state \<open>'w\<close> of whatever
  observes the control. Absent from the source.
\<close>

record 'w control =
  ident :: string
  ckind :: kind
  cbounds :: "bounds option"
  coptions :: "cvalue list"
  current :: cvalue
  cmode :: update_mode
  listeners :: "(cvalue \<Rightarrow> 'w \<Rightarrow> 'w) list"

text \<open>Modelled from the spec: the configuration given to \<open>create\<close>; absent from the source.\<close>

record config =
  cfg_identifier :: string
  cfg_bounds :: "bounds option"
  cfg_options :: "cvalue list"
  cfg_value :: cvalue
  cfg_mode :: update_mode

text \<open>Modelled from the spec: the numeric kinds (integer range, real range).\<close>

fun numeric :: "kind \<Rightarrow> bool" where
  "numeric IntegerRange = True"
| "numeric RealRange = True"
| "numeric _ = False"

text \<open>
  Modelled from the spec: \<open>create(kind, config)\<close> of section 4.1, absent from the source:
  "returns a new Control with validated bounds (fails with InvalidBoundsError when
  min > max, or step <= 0, or bounds not applicable to kind)". A new Control has no
  listener.
\<close>

definition create :: "kind \<Rightarrow> config \<Rightarrow> registry_error + 'w control" where
  "create k cfg =
     (case cfg_bounds cfg of
        Some b \<Rightarrow>
          if bmin b > bmax b then Inl InvalidBoundsError
          else if (case bstep b of Some s \<Rightarrow> s \<le> 0 | None \<Rightarrow> False) then Inl InvalidBoundsError
          else if \<not> numeric k then Inl InvalidBoundsError
          else Inr \<lparr>ident = cfg_identifier cfg, ckind = k, cbounds = Some b,
                    coptions = cfg_options cfg, current = cfg_value cfg, cmode = cfg_mode cfg,
                    listeners = []\<rparr>
      | None \<Rightarrow>
          Inr \<lparr>ident = cfg_identifier cfg, ckind = k, cbounds = None,
               coptions = cfg_options cfg, current = cfg_value cfg, cmode = cfg_mode cfg,
               listeners = []\<rparr>)"

text \<open>
  Modelled from the spec: "v falls outside [min, max]", for a number and the bounds of a
  Control; absent from the source.
\<close>

fun outside :: "bounds option \<Rightarrow> cvalue \<Rightarrow> bool" where
  "outside (Some b) (NumV x) = (x < bmin b \<or> bmax b < x)"
| "outside _ _ = False"

text \<open>
  Modelled from the spec: \<open>setValue\<close> of section 4.1, absent from the source: it "fails
  with OutOfRangeError if v falls outside [min, max] for numeric kinds, or
  InvalidChoiceError if v is not among enumerated options", and otherwise "overwrites
  stored state and fires all subscribed listeners in registration order", synchronously.
  A failed call leaves the Control and the observers' state as they were.
\<close>

definition setValue ::
  "cvalue \<Rightarrow> 'w control \<Rightarrow> 'w \<Rightarrow> (registry_error + unit) \<times> 'w control \<times> 'w" where
  "setValue v c w =
     (if numeric (ckind c) \<and> outside (cbounds c) v then (Inl OutOfRangeError, c, w)
      else if ckind c = EnumeratedChoice \<and> v \<notin> set (coptions c) then (Inl InvalidChoiceError, c, w)
      else (Inr (), c\<lparr>current := v\<rparr>, fold (\<lambda>l. l v) (listeners c) w))"

text \<open>
  Modelled from the spec: \<open>getValue\<close> of section 4.1 "returns the current value"; absent
  from the source.
\<close>

definition getValue :: "'w control \<Rightarrow> cvalue" where
  "getValue c = current c"

text \<open>
  Modelled from the spec: \<open>subscribe\<close> of section 4.1 "registers a listener invoked
  synchronously after every successful setValue"; registration order is the order of the
  list. Absent from the source.
\<close>

definition subscribe :: "(cvalue \<Rightarrow> 'w \<Rightarrow> 'w) \<Rightarrow> 'w control \<Rightarrow> 'w control" where
  "subscribe l c = c\<lparr>listeners := listeners c @ [l]\<rparr>"

text \<open>
  A listener that can be observed: it appends its own number and the value it was called
  with to a log.
\<close>

definition logger :: "nat \<Rightarrow> cvalue \<Rightarrow> (nat \<times> cvalue) list \<Rightarrow> (nat \<times> cvalue) list" where
  "logger i v lg = lg @ [(i, v)]"

text \<open>
  Modelled from the spec: the state of one handle of the Render Dispatcher (section 4.2,
  coalescing policy), absent from the source: the invocations of the render function
  executing now (each with the snapshot it was given), the latest pending snapshot if one
  is queued, and every invocation begun so far, in order.
\<close>

record 's handle =
  in_flight :: "'s list"
  pending :: "'s option"
  invocations :: "'s list"

text \<open>
  Modelled from the spec: what happens to a handle on the host's single execution context:
  a bound Control fires (with the snapshot of the controls' values at that moment), or the
  invocation executing returns. Absent from the source.
\<close>

datatype 's event = Fire 's | Return

text \<open>Modelled from the spec: a handle just bound, with nothing executing or queued.\<close>

definition bound_handle :: "'s handle" where
  "bound_handle = \<lparr>in_flight = [], pending = None, invocations = []\<rparr>"

text \<open>
  Modelled from the spec: the coalescing policy of section 4.2, absent from the source.
  A firing with nothing executing begins an invocation with its snapshot. "If a Control
  fires again while a previous invocation for the same handle is still executing, the
  dispatcher queues the latest pending snapshot and begins the next invocation strictly
  after the current one returns, discarding any snapshots superseded by a newer one".
\<close>

fun dispatch :: "'s event \<Rightarrow> 's handle \<Rightarrow> 's handle" where
  "dispatch (Fire s) h =
     (if in_flight h = [] then h\<lparr>in_flight := [s], invocations := invocations h @ [s]\<rparr>
      else h\<lparr>pending := Some s\<rparr>)"
| "dispatch Return h =
     (case in_flight h of
        [] \<Rightarrow> h
      | _ # running \<Rightarrow>
          (case pending h of
             None \<Rightarrow> h\<lparr>in_flight := running\<rparr>
           | Some s \<Rightarrow>
               h\<lparr>in_flight := running @ [s], pending := None,
                 invocations := invocations h @ [s]\<rparr>))"

text \<open>The events of a run, applied in order.\<close>

definition run :: "'s event list \<Rightarrow> 's handle \<Rightarrow> 's handle" where
  "run evs h = fold dispatch evs h"

text \<open>
  The configuration of the notebook's first slider,
  \<^verbatim>\<open>widgets.IntSlider(description="# of wugs", value=5, min=0, max=10)\<close>, for concrete runs.
\<close>

definition int_slider_config :: config where
  "int_slider_config =
     \<lparr>cfg_identifier = ''# of wugs'',
      cfg_bounds = Some \<lparr>bmin = 0, bmax = 10, bstep = Some 1\<rparr>,
      cfg_options = [], cfg_value = NumV 5, cfg_mode = Immediate\<rparr>"

definition int_slider :: "'w control" where
  "int_slider =
     \<lparr>ident = ''# of wugs'', ckind = IntegerRange,
      cbounds = Some \<lparr>bmin = 0, bmax = 10, bstep = Some 1\<rparr>,
      coptions = [], current = NumV 5, cmode = Immediate, listeners = []\<rparr>"

section \<open>Properties of \<open>hex2rgb\<close>\<close>

lemma py_range_0_5_2: "py_range 0 5 2 = [0, 2, 4]"
  by code_simp

lemma hexval_props:
  assumes "hexval c = Some v"
  shows "(of_char c :: nat) < 127" and "c \<noteq> CHR 0x00" and "\<not> Py_ISSPACE c"
    and "c \<noteq> CHR ''+''" and "c \<noteq> CHR ''-''" and "c \<noteq> CHR ''_''"
    and "c \<noteq> CHR ''x''" and "c \<noteq> CHR ''X''" and "c \<noteq> CHR ''#''"
    and "digit_value c = nat v" and "0 \<le> v" and "v < 16"
proof -
  from assms have "(c, v) \<in> set hex_digit_table"
    unfolding hexval_def by (rule map_of_SomeD)
  then have *: "(of_char c :: nat) < 127 \<and> c \<noteq> CHR 0x00 \<and> \<not> Py_ISSPACE c
    \<and> c \<noteq> CHR ''+'' \<and> c \<noteq> CHR ''-'' \<and> c \<noteq> CHR ''_''
    \<and> c \<noteq> CHR ''x'' \<and> c \<noteq> CHR ''X'' \<and> c \<noteq> CHR ''#''
    \<and> digit_value c = nat v \<and> 0 \<le> v \<and> v < 16"
    unfolding hex_digit_table_def by (auto simp: Py_ISSPACE_def digit_value_def)
  from * show "(of_char c :: nat) < 127" and "c \<noteq> CHR 0x00" and "\<not> Py_ISSPACE c"
    and "c \<noteq> CHR ''+''" and "c \<noteq> CHR ''-''" and "c \<noteq> CHR ''_''"
    and "c \<noteq> CHR ''x''" and "c \<noteq> CHR ''X''" and "c \<noteq> CHR ''#''"
    and "digit_value c = nat v" and "0 \<le> v" and "v < 16" by simp_all
qed

lemma int16_hex_pair:
  assumes a: "hexval a = Some va" and b: "hexval b = Some vb"
  shows "int16 [a, b] = Inr (16 * va + vb)"
proof -
  have asc: "to_ascii [a, b] = [a, b]"
    using hexval_props(1)[OF a] hexval_props(1)[OF b] by (simp add: to_ascii_def)
  have nonul: "CHR 0x00 \<notin> set [a, b]"
    using hexval_props(2)[OF a] hexval_props(2)[OF b] by auto
  have sp: "dropWhile Py_ISSPACE [a, b] = [a, b]"
    using hexval_props(3)[OF a] by simp
  have sg: "skip_sign [a, b] = (False, [a, b])"
    using hexval_props(4,5)[OF a] by simp
  have pf: "skip_prefix16 [a, b] = [a, b]"
    using hexval_props(7,8)[OF b] by simp
  have da: "digit_value a < 16" and db: "digit_value b < 16"
    using hexval_props(10,12)[OF a] hexval_props(10,12)[OF b] hexval_props(11)[OF a] hexval_props(11)[OF b] by auto
  have sc: "scan_digits (CHR 0x00) 0 [a, b] = Some (16 * digit_value a + digit_value b, [])"
    using da db hexval_props(6)[OF a] hexval_props(6)[OF b] by simp
  have val: "int (16 * digit_value a + digit_value b) = 16 * va + vb"
    using hexval_props(10,11)[OF a] hexval_props(10,11)[OF b] by simp
  have "PyLong_FromString16 [a, b] = Some (16 * va + vb)"
    unfolding PyLong_FromString16_def sp sg
    using hexval_props(6)[OF a] val
    by (simp add: pf sc del: skip_prefix16.simps scan_digits.simps)
  then show ?thesis
    unfolding int16_def asc using nonul by simp
qed

lemma lstrip_hashes:
  assumes "c \<noteq> CHR ''#''"
  shows "lstrip ''#'' (replicate k (CHR ''#'') @ c # cs) = c # cs"
  using assms unfolding lstrip_def by (induction k) simp_all

text \<open>
  Claim C2. For a text made of any number of \<open>#\<close> characters followed by exactly six
  hexadecimal digits, \<open>hex2rgb\<close> returns the three integers read from the first, second
  and third pair of digits in base 16 (sixteen times the first digit plus the second), and
  each of them lies between 0 and 255.
\<close>

theorem hex2rgb_six_hex_digits:
  assumes "hexval c1 = Some v1" and "hexval c2 = Some v2" and "hexval c3 = Some v3"
    and "hexval c4 = Some v4" and "hexval c5 = Some v5" and "hexval c6 = Some v6"
  shows "hex2rgb (replicate k (CHR ''#'') @ [c1, c2, c3, c4, c5, c6])
           = Inr [16 * v1 + v2, 16 * v3 + v4, 16 * v5 + v6]
         \<and> 0 \<le> 16 * v1 + v2 \<and> 16 * v1 + v2 \<le> 255
         \<and> 0 \<le> 16 * v3 + v4 \<and> 16 * v3 + v4 \<le> 255
         \<and> 0 \<le> 16 * v5 + v6 \<and> 16 * v5 + v6 \<le> 255"
proof -
  have strip: "lstrip ''#'' (replicate k (CHR ''#'') @ [c1, c2, c3, c4, c5, c6])
      = [c1, c2, c3, c4, c5, c6]"
    using lstrip_hashes[OF hexval_props(9)[OF assms(1)]] by simp
  have "hex2rgb (replicate k (CHR ''#'') @ [c1, c2, c3, c4, c5, c6])
      = comprehension [int16 [c1, c2], int16 [c3, c4], int16 [c5, c6]]"
    unfolding hex2rgb_def strip py_range_0_5_2 by (simp add: slice_def)
  also have "\<dots> = Inr [16 * v1 + v2, 16 * v3 + v4, 16 * v5 + v6]"
    by (simp add: int16_hex_pair[OF assms(1,2)] int16_hex_pair[OF assms(3,4)]
        int16_hex_pair[OF assms(5,6)])
  finally have main: "hex2rgb (replicate k (CHR ''#'') @ [c1, c2, c3, c4, c5, c6])
      = Inr [16 * v1 + v2, 16 * v3 + v4, 16 * v5 + v6]" .
  have bounds: "0 \<le> 16 * v1 + v2 \<and> 16 * v1 + v2 \<le> 255
         \<and> 0 \<le> 16 * v3 + v4 \<and> 16 * v3 + v4 \<le> 255
         \<and> 0 \<le> 16 * v5 + v6 \<and> 16 * v5 + v6 \<le> 255"
    using hexval_props(11,12)[OF assms(1)] hexval_props(11,12)[OF assms(2)]
      hexval_props(11,12)[OF assms(3)] hexval_props(11,12)[OF assms(4)]
      hexval_props(11,12)[OF assms(5)] hexval_props(11,12)[OF assms(6)] by simp
  from main bounds show ?thesis by simp
qed

theorem hex2rgb_six_hex_digits_witness:
  "hex2rgb ''#804080'' = Inr [128, 64, 128] \<and> hex2rgb ''0bFfa9'' = Inr [11, 255, 169]"
proof -
  have h: "hexval (CHR ''8'') = Some 8" "hexval (CHR ''0'') = Some 0" "hexval (CHR ''4'') = Some 4"
     "hexval (CHR ''b'') = Some 11" "hexval (CHR ''F'') = Some 15" "hexval (CHR ''f'') = Some 15"
     "hexval (CHR ''a'') = Some 10" "hexval (CHR ''9'') = Some 9"
    by (simp_all add: hexval_def hex_digit_table_def)
  have "hex2rgb (replicate 1 (CHR ''#'') @ ''804080'') = Inr [128, 64, 128]"
    using hex2rgb_six_hex_digits[OF h(1) h(2) h(3) h(2) h(1) h(2), of 1] by simp
  moreover have "hex2rgb (replicate 0 (CHR ''#'') @ ''0bFfa9'') = Inr [11, 255, 169]"
    using hex2rgb_six_hex_digits[OF h(2) h(4) h(5) h(6) h(7) h(8), of 0] by simp
  ultimately show ?thesis by simp
qed

lemma char_of_hex_codes:
  "char_of (48::nat) = CHR ''0''" "char_of (49::nat) = CHR ''1''" "char_of (50::nat) = CHR ''2''"
  "char_of (51::nat) = CHR ''3''" "char_of (52::nat) = CHR ''4''" "char_of (53::nat) = CHR ''5''"
  "char_of (54::nat) = CHR ''6''" "char_of (55::nat) = CHR ''7''" "char_of (56::nat) = CHR ''8''"
  "char_of (57::nat) = CHR ''9''"
  "char_of (97::nat) = CHR ''a''" "char_of (98::nat) = CHR ''b''" "char_of (99::nat) = CHR ''c''"
  "char_of (100::nat) = CHR ''d''" "char_of (101::nat) = CHR ''e''" "char_of (102::nat) = CHR ''f''"
  "char_of (65::nat) = CHR ''A''" "char_of (66::nat) = CHR ''B''" "char_of (67::nat) = CHR ''C''"
  "char_of (68::nat) = CHR ''D''" "char_of (69::nat) = CHR ''E''" "char_of (70::nat) = CHR ''F''"
  by code_simp+

lemma hex_digit_codes:
  "hex_digit (char_of (48::nat))" "hex_digit (char_of (49::nat))" "hex_digit (char_of (50::nat))"
  "hex_digit (char_of (51::nat))" "hex_digit (char_of (52::nat))" "hex_digit (char_of (53::nat))"
  "hex_digit (char_of (54::nat))" "hex_digit (char_of (55::nat))" "hex_digit (char_of (56::nat))"
  "hex_digit (char_of (57::nat))"
  "hex_digit (char_of (97::nat))" "hex_digit (char_of (98::nat))" "hex_digit (char_of (99::nat))"
  "hex_digit (char_of (100::nat))" "hex_digit (char_of (101::nat))" "hex_digit (char_of (102::nat))"
  "hex_digit (char_of (65::nat))" "hex_digit (char_of (66::nat))" "hex_digit (char_of (67::nat))"
  "hex_digit (char_of (68::nat))" "hex_digit (char_of (69::nat))" "hex_digit (char_of (70::nat))"
  unfolding char_of_hex_codes by (simp_all add: hex_digit_def hexval_def hex_digit_table_def)

lemma digit_value_hex: "digit_value c < 16 \<longleftrightarrow> hex_digit c"
proof
  assume "hex_digit c"
  then obtain v where "hexval c = Some v" by (auto simp: hex_digit_def)
  from hexval_props(10,12)[OF this] hexval_props(11)[OF this] show "digit_value c < 16" by simp
next
  assume h: "digit_value c < 16"
  define k where "k = (of_char c :: nat)"
  have c: "c = char_of k" by (simp add: k_def)
  from h have "48 \<le> k \<and> k \<le> 57 \<or> 97 \<le> k \<and> k \<le> 102 \<or> 65 \<le> k \<and> k \<le> 70"
    unfolding digit_value_def k_def[symmetric] Let_def by (auto split: if_splits)
  then have "k = 48 \<or> k = 49 \<or> k = 50 \<or> k = 51 \<or> k = 52 \<or> k = 53 \<or> k = 54 \<or> k = 55
      \<or> k = 56 \<or> k = 57 \<or> k = 97 \<or> k = 98 \<or> k = 99 \<or> k = 100 \<or> k = 101 \<or> k = 102
      \<or> k = 65 \<or> k = 66 \<or> k = 67 \<or> k = 68 \<or> k = 69 \<or> k = 70"
    by arith
  then show "hex_digit c"
    unfolding c using hex_digit_codes by (elim disjE) (simp_all only:)
qed

lemma space_facts:
  assumes "Py_ISSPACE c"
  shows "\<not> digit_value c < 16" and "c \<noteq> CHR ''+''" and "c \<noteq> CHR ''-''" and "c \<noteq> CHR ''_''"
    and "(of_char c :: nat) < 127" and "c \<noteq> CHR 0x00"
  using assms by (auto simp: Py_ISSPACE_def digit_value_def)

lemma const_facts:
  "\<not> digit_value (CHR ''+'') < 16" "\<not> digit_value (CHR ''-'') < 16"
  "\<not> digit_value (CHR ''_'') < 16" "\<not> digit_value (CHR ''x'') < 16"
  "\<not> digit_value (CHR ''X'') < 16" "\<not> digit_value (CHR ''?'') < 16"
  "\<not> digit_value (CHR 0x00) < 16"
  "\<not> Py_ISSPACE (CHR ''+'')" "\<not> Py_ISSPACE (CHR ''-'')" "\<not> Py_ISSPACE (CHR ''_'')"
  "\<not> Py_ISSPACE (CHR ''x'')" "\<not> Py_ISSPACE (CHR ''X'')" "\<not> Py_ISSPACE (CHR ''?'')"
  "\<not> Py_ISSPACE (CHR 0x00)" "Py_ISSPACE (CHR '' '')"
  by (simp_all add: Py_ISSPACE_def digit_value_def)

lemma parse1:
  "PyLong_FromString16 [a] = (if digit_value a < 16 then Some (int (digit_value a)) else None)"
proof (cases "Py_ISSPACE a")
  case True
  then show ?thesis using space_facts(1)[OF True] by (simp add: PyLong_FromString16_def)
next
  case False
  then show ?thesis
    using const_facts by (auto simp: PyLong_FromString16_def Let_def)
qed

lemma parse2:
  "PyLong_FromString16 [a, b] =
     (if digit_value a < 16 \<and> digit_value b < 16
        then Some (int (16 * digit_value a + digit_value b))
      else if digit_value a < 16 \<and> Py_ISSPACE b then Some (int (digit_value a))
      else if (Py_ISSPACE a \<or> a = CHR ''+'') \<and> digit_value b < 16 then Some (int (digit_value b))
      else if a = CHR ''-'' \<and> digit_value b < 16 then Some (- int (digit_value b))
      else None)"
proof -
  consider (sp) "Py_ISSPACE a" | (plus) "a = CHR ''+''" | (minus) "a = CHR ''-''"
    | (under) "a = CHR ''_''" | (hex) "digit_value a < 16"
    | (other) "\<not> Py_ISSPACE a" "a \<noteq> CHR ''+''" "a \<noteq> CHR ''-''" "a \<noteq> CHR ''_''"
        "\<not> digit_value a < 16"
    by blast
  then show ?thesis
  proof cases
    case sp
    show ?thesis
    proof (cases "Py_ISSPACE b")
      case True
      then show ?thesis
        using sp space_facts(1)[OF sp] space_facts(1-4)[OF True]
        by (simp add: PyLong_FromString16_def)
    next
      case False
      then show ?thesis
        using sp space_facts(1-4)[OF sp] const_facts
        by (auto simp: PyLong_FromString16_def Let_def)
    qed
  next
    case plus
    show ?thesis
    proof (cases "Py_ISSPACE b")
      case True
      then show ?thesis
        using plus space_facts(1-4)[OF True] const_facts
        by (simp add: PyLong_FromString16_def)
    next
      case False
      then show ?thesis
        using plus const_facts by (auto simp: PyLong_FromString16_def Let_def)
    qed
  next
    case minus
    show ?thesis
    proof (cases "Py_ISSPACE b")
      case True
      then show ?thesis
        using minus space_facts(1-4)[OF True] const_facts
        by (simp add: PyLong_FromString16_def)
    next
      case False
      then show ?thesis
        using minus const_facts by (auto simp: PyLong_FromString16_def Let_def)
    qed
  next
    case under
    then show ?thesis using const_facts by (simp add: PyLong_FromString16_def)
  next
    case hex
    have na: "\<not> Py_ISSPACE a" "a \<noteq> CHR ''+''" "a \<noteq> CHR ''-''" "a \<noteq> CHR ''_''"
      using hex space_facts(1)[of a] const_facts by auto
    show ?thesis
    proof (cases "Py_ISSPACE b")
      case True
      have nx: "b \<noteq> CHR ''x''" "b \<noteq> CHR ''X''" using True const_facts by auto
      show ?thesis
        using hex na nx True space_facts(1-4)[OF True]
        by (simp add: PyLong_FromString16_def)
    next
      case False
      show ?thesis
      proof (cases "a = CHR ''0'' \<and> (b = CHR ''x'' \<or> b = CHR ''X'')")
        case True
        then show ?thesis
          using na const_facts by (auto simp: PyLong_FromString16_def)
      next
        case nopre: False
        then have pf: "skip_prefix16 [a, b] = [a, b]" by auto
        have sg: "skip_sign (dropWhile Py_ISSPACE [a, b]) = (False, [a, b])"
          using na by simp
        show ?thesis
          unfolding PyLong_FromString16_def sg
          using hex na False const_facts
          by (auto simp: pf Let_def simp del: skip_prefix16.simps)
      qed
    qed
  next
    case other
    have sg: "skip_sign (dropWhile Py_ISSPACE [a, b]) = (False, [a, b])"
      using other by simp
    have pf: "skip_prefix16 [a, b] = [a, b]"
      using other(5) by (auto simp: digit_value_def)
    show ?thesis
      unfolding PyLong_FromString16_def sg
      using other by (simp add: pf Let_def del: skip_prefix16.simps)
  qed
qed

lemma hex_digit_facts:
  assumes "hex_digit c"
  shows "(of_char c :: nat) < 127" and "c \<noteq> CHR 0x00" and "\<not> Py_ISSPACE c"
    and "c \<noteq> CHR ''+''" and "c \<noteq> CHR ''-''" and "c \<noteq> CHR 0x85" and "c \<noteq> CHR 0xA0"
proof -
  from assms obtain v where v: "hexval c = Some v" by (auto simp: hex_digit_def)
  show "(of_char c :: nat) < 127" and "c \<noteq> CHR 0x00" and "\<not> Py_ISSPACE c"
    and "c \<noteq> CHR ''+''" and "c \<noteq> CHR ''-''"
    using hexval_props(1-5)[OF v] by simp_all
  show "c \<noteq> CHR 0x85" and "c \<noteq> CHR 0xA0"
    using hexval_props(1)[OF v] by auto
qed

lemma int_space_ascii: "(of_char c :: nat) < 128 \<Longrightarrow> int_space c = Py_ISSPACE c"
  by (auto simp: int_space_def)

lemma int_space_facts:
  assumes "int_space c"
  shows "\<not> hex_digit c" and "c \<noteq> CHR ''+''" and "c \<noteq> CHR ''-''" and "c \<noteq> CHR 0x00"
  using assms hex_digit_facts(3,6,7)[of c] space_facts(2,3,6)[of c]
  by (auto simp: int_space_def)

lemma int16_empty: "int16 [] = Inl ValueError"
  by (simp add: int16_def to_ascii_def PyLong_FromString16_def)

lemma int16_one: "isl (int16 [a]) = (\<not> short_literal [a])"
proof (cases "(of_char a :: nat) < 128")
  case True
  then have asc: "to_ascii [a] = [a]" by (simp add: to_ascii_def)
  show ?thesis
    using const_facts(7) by (auto simp: int16_def asc parse1 digit_value_hex)
next
  case False
  then have nh: "\<not> hex_digit a" using hex_digit_facts(1)[of a] by auto
  from False have "to_ascii [a] = '' '' \<or> to_ascii [a] = ''?''"
    by (auto simp: to_ascii_def)
  then have "int16 [a] = Inl ValueError"
    using const_facts space_facts(1)[OF const_facts(15)] by (auto simp: int16_def parse1)
  then show ?thesis using nh by simp
qed

lemma int16_two: "isl (int16 [a, b]) = (\<not> short_literal [a, b])"
proof -
  have sp: "\<not> digit_value (CHR '' '') < 16" by (rule space_facts(1)[OF const_facts(15)])
  consider (ascii) "(of_char a :: nat) < 128" "(of_char b :: nat) < 128"
    | (a_low) "(of_char a :: nat) < 127" "\<not> (of_char b :: nat) < 128"
    | (a_del) "\<not> (of_char a :: nat) < 127" "(of_char a :: nat) < 128" "\<not> (of_char b :: nat) < 128"
    | (a_high) "\<not> (of_char a :: nat) < 128"
    by linarith
  then show ?thesis
  proof cases
    case ascii
    then have asc: "to_ascii [a, b] = [a, b]" by (simp add: to_ascii_def)
    show ?thesis
    proof (cases "a = CHR 0x00 \<or> b = CHR 0x00")
      case True
      then have "int16 [a, b] = Inl ValueError" by (auto simp: int16_def asc)
      moreover have "\<not> short_literal [a, b]"
        using True hex_digit_facts(2)[of a] hex_digit_facts(2)[of b]
          int_space_facts(4)[of a] int_space_facts(4)[of b] by auto
      ultimately show ?thesis by simp
    next
      case False
      then have "int16 [a, b] = (case PyLong_FromString16 [a, b] of None \<Rightarrow> Inl ValueError
          | Some v \<Rightarrow> Inr v)"
        by (auto simp: int16_def asc)
      then show ?thesis
        using hex_digit_facts(3,4,5)[of a] hex_digit_facts(3,4,5)[of b]
        by (auto simp: parse2 digit_value_hex int_space_ascii[OF ascii(1)]
            int_space_ascii[OF ascii(2)])
    qed
  next
    case a_low
    have nhb: "\<not> hex_digit b" using a_low(2) hex_digit_facts(1)[of b] by auto
    have nsb: "\<not> Py_ISSPACE b" using a_low(2) space_facts(5)[of b] by auto
    show ?thesis
    proof (cases "b = CHR 0x85 \<or> b = CHR 0xA0")
      case True
      then have isb: "int_space b" by (auto simp: int_space_def)
      from True a_low have asc: "to_ascii [a, b] = [a, CHR '' '']"
        by (auto simp: to_ascii_def)
      show ?thesis
      proof (cases "a = CHR 0x00")
        case True
        have "int16 [a, b] = Inl ValueError"
          unfolding int16_def asc using True by simp
        then show ?thesis
          using True nhb hex_digit_facts(2)[of a] by auto
      next
        case False
        have "int16 [a, b] = (case PyLong_FromString16 [a, CHR '' ''] of
            None \<Rightarrow> Inl ValueError | Some v \<Rightarrow> Inr v)"
          unfolding int16_def asc using False by auto
        then show ?thesis
          using nhb isb sp const_facts(15)
          by (auto simp: parse2 digit_value_hex)
      qed
    next
      case False
      then have nib: "\<not> int_space b" using nsb by (simp add: int_space_def)
      from False a_low have asc: "to_ascii [a, b] = [a, CHR ''?'']"
        by (auto simp: to_ascii_def)
      have "int16 [a, b] = Inl ValueError"
        unfolding int16_def asc using const_facts by (auto simp: parse2)
      then show ?thesis using nhb nib by simp
    qed
  next
    case a_del
    have nha: "\<not> hex_digit a" using a_del(1) hex_digit_facts(1)[of a] by auto
    have nhb: "\<not> hex_digit b" using a_del(3) hex_digit_facts(1)[of b] by auto
    have na: "a \<noteq> CHR 0x85" "a \<noteq> CHR 0xA0" using a_del(2) by auto
    have asc: "to_ascii [a, b] = ''?''"
      using a_del na by (simp add: to_ascii_def)
    have "int16 [a, b] = Inl ValueError"
      unfolding int16_def asc using const_facts by (auto simp: parse1)
    then show ?thesis using nha nhb by simp
  next
    case a_high
    have nha: "\<not> hex_digit a" using a_high hex_digit_facts(1)[of a] by auto
    have nsa: "\<not> Py_ISSPACE a" using a_high space_facts(5)[of a] by auto
    have npm: "a \<noteq> CHR ''+''" "a \<noteq> CHR ''-''" using a_high by auto
    show ?thesis
    proof (cases "a = CHR 0x85 \<or> a = CHR 0xA0")
      case False
      then have nia: "\<not> int_space a" using nsa by (simp add: int_space_def)
      from False a_high have asc: "to_ascii [a, b] = ''?''"
        by (auto simp: to_ascii_def)
      have "int16 [a, b] = Inl ValueError"
        unfolding int16_def asc using const_facts by (auto simp: parse1)
      moreover have "\<not> short_literal [a, b]" using nha nia npm by simp
      ultimately show ?thesis by simp
    next
      case True
      then have isa: "int_space a" by (auto simp: int_space_def)
      have sl: "short_literal [a, b] = hex_digit b" using nha isa by simp
      consider (b_low) "(of_char b :: nat) < 127"
        | (b_sp) "\<not> (of_char b :: nat) < 127" "b = CHR 0x85 \<or> b = CHR 0xA0"
        | (b_other) "\<not> (of_char b :: nat) < 127" "\<not> (b = CHR 0x85 \<or> b = CHR 0xA0)"
        by blast
      then show ?thesis
      proof cases
        case b_low
        with True a_high have asc: "to_ascii [a, b] = [CHR '' '', b]"
          by (auto simp: to_ascii_def)
        show ?thesis
        proof (cases "b = CHR 0x00")
          case True
          have "int16 [a, b] = Inl ValueError"
            unfolding int16_def asc using True by simp
          moreover have "\<not> hex_digit b" using True hex_digit_facts(2)[of b] by auto
          ultimately show ?thesis unfolding sl by simp
        next
          case False
          have "int16 [a, b] = (case PyLong_FromString16 [CHR '' '', b] of
              None \<Rightarrow> Inl ValueError | Some v \<Rightarrow> Inr v)"
            unfolding int16_def asc using False by auto
          then show ?thesis
            unfolding sl using sp const_facts(15) by (auto simp: parse2 digit_value_hex)
        qed
      next
        case b_sp
        with True a_high have asc: "to_ascii [a, b] = [CHR '' '', CHR '' '']"
          by (auto simp: to_ascii_def)
        have "int16 [a, b] = Inl ValueError"
          unfolding int16_def asc using sp const_facts by (auto simp: parse2)
        moreover have "\<not> hex_digit b" using b_sp(1) hex_digit_facts(1)[of b] by auto
        ultimately show ?thesis unfolding sl by simp
      next
        case b_other
        with True a_high have asc: "to_ascii [a, b] = [CHR '' '', CHR ''?'']"
          by (auto simp: to_ascii_def)
        have "int16 [a, b] = Inl ValueError"
          unfolding int16_def asc using sp const_facts by (auto simp: parse2)
        moreover have "\<not> hex_digit b" using b_other(1) hex_digit_facts(1)[of b] by auto
        ultimately show ?thesis unfolding sl by simp
      qed
    qed
  qed
qed

lemma int16_short: "length sl \<le> 2 \<Longrightarrow> isl (int16 sl) = (\<not> short_literal sl)"
proof -
  assume "length sl \<le> 2"
  then consider "sl = []" | a where "sl = [a]" | a b where "sl = [a, b]"
    by (cases sl rule: short_literal.cases) auto
  then show ?thesis
    by cases (simp_all add: int16_empty int16_one int16_two del: short_literal.simps(1,2))
qed

lemma isl_comprehension3:
  "isl (comprehension [r1, r2, r3]) = (isl r1 \<or> isl r2 \<or> isl r3)"
  by (cases r1; cases r2; cases r3) simp_all

lemma py_error_only: "isl r \<longleftrightarrow> r = Inl ValueError" for r :: "py_error + 'a"
  by (cases r) (auto intro: py_error.exhaust)

text \<open>
  Claim C9, as amended. \<open>hex2rgb\<close> validates nothing beyond what \<open>int\<close> does, and
  raises \<open>ValueError\<close> exactly when one of the three slices (characters 0-1, 2-3, 4-5) of
  the remainder after the leading \<open>#\<close> characters is not a base-16 literal of at most two
  characters: one or two hexadecimal digits, or one hexadecimal digit with a sign or
  white space before it or white space after it. In particular it raises for every
  remainder shorter than five characters (such as a three-digit shorthand colour) and for
  the colour picker's default \<open>black\<close>.
\<close>

theorem hex2rgb_raises:
  "(hex2rgb s = Inl ValueError)
     = (\<not> (short_literal (slice (lstrip ''#'' s) 0 2)
          \<and> short_literal (slice (lstrip ''#'' s) 2 4)
          \<and> short_literal (slice (lstrip ''#'' s) 4 6)))
   \<and> (length (lstrip ''#'' s) < 5 \<longrightarrow> hex2rgb s = Inl ValueError)"
proof -
  let ?r = "lstrip ''#'' s"
  have s0: "isl (int16 (slice ?r 0 2)) = (\<not> short_literal (slice ?r 0 2))"
    by (rule int16_short) (simp add: slice_def)
  have s2: "isl (int16 (slice ?r 2 4)) = (\<not> short_literal (slice ?r 2 4))"
    by (rule int16_short) (simp add: slice_def)
  have s4: "isl (int16 (slice ?r 4 6)) = (\<not> short_literal (slice ?r 4 6))"
    by (rule int16_short) (simp add: slice_def)
  have e: "hex2rgb s = comprehension [int16 (slice ?r 0 2), int16 (slice ?r 2 4), int16 (slice ?r 4 6)]"
    unfolding hex2rgb_def py_range_0_5_2 by (simp add: Let_def slice_def)
  have "isl (hex2rgb s) = (\<not> (short_literal (slice ?r 0 2)
          \<and> short_literal (slice ?r 2 4) \<and> short_literal (slice ?r 4 6)))"
    unfolding e isl_comprehension3 s0 s2 s4 by blast
  then have iff: "(hex2rgb s = Inl ValueError) = (\<not> (short_literal (slice ?r 0 2)
          \<and> short_literal (slice ?r 2 4) \<and> short_literal (slice ?r 4 6)))"
    by (simp add: py_error_only)
  have short: "hex2rgb s = Inl ValueError" if "length ?r < 5"
  proof -
    from that have "slice ?r 4 6 = []" by (simp add: slice_def)
    then have "\<not> short_literal (slice ?r 4 6)" by simp
    with iff show ?thesis by simp
  qed
  from iff short show ?thesis by blast
qed

theorem hex2rgb_raises_witness:
  "length (lstrip ''#'' ''#abc'') < 5 \<and> hex2rgb ''#abc'' = Inl ValueError
   \<and> \<not> short_literal (slice (lstrip ''#'' ''black'') 0 2)
   \<and> hex2rgb ''black'' = Inl ValueError"
proof -
  have a: "length (lstrip ''#'' ''#abc'') < 5" by (simp add: lstrip_def)
  have b: "\<not> short_literal (slice (lstrip ''#'' ''black'') 0 2)"
    by (simp add: lstrip_def slice_def hex_digit_def hexval_def hex_digit_table_def
        int_space_def Py_ISSPACE_def)
  from hex2rgb_raises[of "''#abc''"] hex2rgb_raises[of "''black''"] a b
  show ?thesis by blast
qed

text \<open>
  Claim C9, as stated, fails: the text \<open>12345\<close> is shorter than six characters and so
  does not begin with six hexadecimal digits, yet \<open>hex2rgb\<close> returns a triplet for it,
  the last slice being the single digit \<open>5\<close>.
\<close>

theorem hex2rgb_five_digits_counterexample:
  "\<not> begins_with_six_hex_digits (lstrip ''#'' ''12345'') \<and> hex2rgb ''12345'' = Inr [18, 52, 5]"
proof -
  have "\<not> begins_with_six_hex_digits (lstrip ''#'' ''12345'')"
    by (simp add: begins_with_six_hex_digits_def lstrip_def)
  moreover have "hex2rgb ''12345'' = Inr [18, 52, 5]"
    by code_simp
  ultimately show ?thesis by simp
qed

section \<open>Draws and scenes of the render loops\<close>

lemma draw_calls_append:
  "draw_calls rng (cs @ cs') g =
     (let (ds, g1) = draw_calls rng cs g; (es, g2) = draw_calls rng cs' g1 in (ds @ es, g2))"
  by (induction cs arbitrary: g) (simp_all add: split_beta Let_def)

lemma draw_calls_calls: "map call_of (fst (draw_calls rng cs g)) = cs"
proof (induction cs arbitrary: g)
  case Nil
  show ?case by simp
next
  case (Cons c cs)
  then show ?case by (cases c) (simp_all add: split_beta Let_def)
qed

lemma draw_calls_length: "length (fst (draw_calls rng cs g)) = length cs"
  using draw_calls_calls[of rng cs g] by (metis length_map)

lemma circles_of_append:
  "length xs = 6 * k \<Longrightarrow> circles_of (xs @ ys) = circles_of xs @ circles_of ys"
proof (induction k arbitrary: xs)
  case 0
  then show ?case by simp
next
  case (Suc k)
  then obtain r g b x y s rest where xs: "xs = r # g # b # x # y # s # rest"
    by (auto simp: length_Suc_conv eval_nat_numeral)
  with Suc.prems have "length rest = 6 * k" by simp
  from Suc.IH[OF this] show ?case by (simp add: xs)
qed

lemma alpha_circles_of_append:
  "length xs = 6 * k \<Longrightarrow>
     alpha_circles_of a (xs @ ys) = alpha_circles_of a xs @ alpha_circles_of a ys"
proof (induction k arbitrary: xs)
  case 0
  then show ?case by simp
next
  case (Suc k)
  then obtain r g b x y s rest where xs: "xs = r # g # b # x # y # s # rest"
    by (auto simp: length_Suc_conv eval_nat_numeral)
  with Suc.prems have "length rest = 6 * k" by simp
  from Suc.IH[OF this] show ?case by (simp add: xs)
qed

lemma circles_of_length: "length xs = 6 * k \<Longrightarrow> length (circles_of xs) = k"
proof (induction k arbitrary: xs)
  case 0
  then show ?case by simp
next
  case (Suc k)
  then obtain r g b x y s rest where xs: "xs = r # g # b # x # y # s # rest"
    by (auto simp: length_Suc_conv eval_nat_numeral)
  with Suc.prems have "length rest = 6 * k" by simp
  from Suc.IH[OF this] show ?case by (simp add: xs)
qed

lemma circles_of_all_circles: "list_all is_circle (circles_of xs)"
  by (induction xs rule: circles_of.induct) simp_all

lemma ellipse_step_draws:
  "ellipse_step rng (p, w) =
     (let (ds, g) = draw_calls rng (circle_calls (UniformCall 80) 40) (gen w)
      in (p\<lparr>items := items p @ circles_of (map drawn ds)\<rparr>,
          w\<lparr>gen := g, draws := draws w @ ds\<rparr>))"
  by (simp add: ellipse_step_def circle_calls_def np_random_uniform_def split_beta Let_def
      place_def fill_def nostroke_def shape_def)

lemma length_concat_replicate: "length (concat (replicate k xs)) = length xs * k"
  by (induction k) simp_all

lemma for_range_ellipse_step:
  "for_range k (ellipse_step rng) (p, w) =
     (let (ds, g) = draw_calls rng (concat (replicate k (circle_calls (UniformCall 80) 40))) (gen w)
      in (p\<lparr>items := items p @ circles_of (map drawn ds)\<rparr>,
          w\<lparr>gen := g, draws := draws w @ ds\<rparr>))"
proof (induction k arbitrary: p w)
  case 0
  show ?case by simp
next
  case (Suc k)
  have six: "length (map drawn (fst (draw_calls rng (circle_calls (UniformCall 80) 40) (gen w)))) = 6 * 1"
    by (simp add: draw_calls_length) (simp add: circle_calls_def)
  show ?case
    by (simp add: ellipse_step_draws Suc.IH draw_calls_append split_beta Let_def
        circles_of_append[OF six] del: draw_calls.simps)
qed

lemma alpha_ellipse_step_draws:
  "alpha_ellipse_step rng alpha max_size pos_dist (p, w) =
     (let (ds, g) = draw_calls rng
            (circle_calls (if pos_dist = ''uniform'' then UniformCall 80 else NormalCall 40 20)
               max_size) (gen w)
      in (p\<lparr>items := items p @ alpha_circles_of alpha (map drawn ds)\<rparr>,
          w\<lparr>gen := g, draws := draws w @ ds\<rparr>))"
  by (simp add: alpha_ellipse_step_def circle_calls_def np_random_uniform_def
      np_random_normal_def split_beta Let_def place_def fill_def nostroke_def shape_def)

lemma for_range_alpha_ellipse_step:
  "for_range k (alpha_ellipse_step rng alpha max_size pos_dist) (p, w) =
     (let (ds, g) = draw_calls rng
            (concat (replicate k
               (circle_calls (if pos_dist = ''uniform'' then UniformCall 80 else NormalCall 40 20)
                  max_size))) (gen w)
      in (p\<lparr>items := items p @ alpha_circles_of alpha (map drawn ds)\<rparr>,
          w\<lparr>gen := g, draws := draws w @ ds\<rparr>))"
proof (induction k arbitrary: p w)
  case 0
  show ?case by simp
next
  case (Suc k)
  let ?cs = "circle_calls (if pos_dist = ''uniform'' then UniformCall 80 else NormalCall 40 20) max_size"
  have six: "length (map drawn (fst (draw_calls rng ?cs (gen w)))) = 6 * 1"
    by (simp add: draw_calls_length) (simp add: circle_calls_def)
  show ?case
    by (simp add: alpha_ellipse_step_draws Suc.IH draw_calls_append split_beta Let_def
        alpha_circles_of_append[OF six] del: draw_calls.simps)
qed

lemma rand_ellipses_eq:
  "rand_ellipses rng svg n w =
     (let (ds, g) = draw_calls rng (concat (replicate (nat n) (circle_calls (UniformCall 80) 40))) (gen w)
      in w\<lparr>gen := g, draws := draws w @ ds,
            displayed := displayed w @
              [svg \<lparr>width = 80, height = 80, units = ''mm'', items = circles_of (map drawn ds)\<rparr>]\<rparr>)"
  by (simp add: rand_ellipses_def for_range_ellipse_step addpage_def document_def show_page_def
      split_beta Let_def)

lemma rand_ellipses_seed_eq:
  "rand_ellipses_seed rng svg n w =
     (let (ds, g) = draw_calls rng (concat (replicate (nat n) (circle_calls (UniformCall 80) 40)))
                      (seed_state rng 12345)
      in Inr (w\<lparr>gen := g, draws := draws w @ ds,
            displayed := displayed w @
              [svg \<lparr>width = 80, height = 80, units = ''mm'', items = circles_of (map drawn ds)\<rparr>]\<rparr>))"
  by (simp add: rand_ellipses_seed_def np_random_seed_def for_range_ellipse_step addpage_def
      document_def show_page_def split_beta Let_def)

lemma rand_alpha_ellipses_eq:
  "rand_alpha_ellipses rng svg n alpha max_size pos_dist seed w =
     (if 0 \<le> seed \<and> seed < 2 ^ 32 then
        let (ds, g) = draw_calls rng
              (concat (replicate (nat n)
                 (circle_calls (if pos_dist = ''uniform'' then UniformCall 80 else NormalCall 40 20)
                    max_size))) (seed_state rng seed)
        in Inr (w\<lparr>gen := g, draws := draws w @ ds,
              displayed := displayed w @
                [svg \<lparr>width = 80, height = 80, units = ''mm'',
                       items = alpha_circles_of alpha (map drawn ds)\<rparr>]\<rparr>)
      else Inl ValueError)"
  by (simp add: rand_alpha_ellipses_def np_random_seed_def for_range_alpha_ellipse_step addpage_def
      document_def show_page_def split_beta Let_def)

text \<open>
  Claim C1. Seeded rendering is deterministic: two invocations of \<open>rand_ellipses_seed\<close>
  with the same \<open>n\<close>, started in any two states of the process (whatever the generator
  was left in and whatever was drawn before), both return, make the same sequence of draws
  \<open>ds\<close>, display the same scene \<open>p\<close> and leave the generator in the same state,
  because each call first installs the state of seed 12345.
\<close>

theorem rand_ellipses_seed_deterministic:
  "\<exists>ds p g.
     rand_ellipses_seed rng svg n w1
       = Inr (w1\<lparr>gen := g, draws := draws w1 @ ds, displayed := displayed w1 @ [svg p]\<rparr>)
   \<and> rand_ellipses_seed rng svg n w2
       = Inr (w2\<lparr>gen := g, draws := draws w2 @ ds, displayed := displayed w2 @ [svg p]\<rparr>)"
  by (simp add: rand_ellipses_seed_eq split_beta Let_def) blast

text \<open>
  Claim C6. For every value of \<open>size\<close>, \<open>disp_square\<close> changes nothing but the display,
  to which it adds the serialisation of a fresh 80 by 80 mm page holding exactly one shape:
  the rectangle at (10, 10) of width and height \<open>size\<close>, filled with rgb(120, 40, 160),
  with no stroke.
\<close>

theorem disp_square_scene:
  "disp_square svg sz w =
     w\<lparr>displayed := displayed w @
          [svg \<lparr>width = 80, height = 80, units = ''mm'',
                 items = [rectangle \<lparr>strokecolor = None,
                                       fillcolor = Some (rgb (IntN 120) (IntN 40) (IntN 160))\<rparr>
                            (IntN 10) (IntN 10) sz sz]\<rparr>]\<rparr>"
  by (simp add: disp_square_def show_page_def place_def addpage_def document_def nostroke_def
      fill_def shape_def)

text \<open>
  Claim C7. For every non-negative \<open>n\<close>, \<open>rand_ellipses n\<close> displays a fresh 80 by 80 mm
  page holding exactly \<open>n\<close> shapes, each a circle (an ellipse with equal radii), whose
  fill, centre and size are the values drawn: the scene is \<open>circles_of\<close> the values of
  the draws \<open>ds\<close> the call made, and these are exactly six uniform draws per circle
  (three of 255, two of 80, one of 40).
\<close>

theorem rand_ellipses_circles:
  assumes "0 \<le> n"
  shows "\<exists>ds p g.
     rand_ellipses rng svg n w
       = w\<lparr>gen := g, draws := draws w @ ds, displayed := displayed w @ [svg p]\<rparr>
   \<and> width p = 80 \<and> height p = 80 \<and> units p = ''mm''
   \<and> int (length (items p)) = n
   \<and> list_all is_circle (items p)
   \<and> items p = circles_of (map drawn ds)
   \<and> int (length ds) = 6 * n
   \<and> map call_of ds = concat (replicate (nat n) (circle_calls (UniformCall 80) 40))"
proof -
  let ?cs = "concat (replicate (nat n) (circle_calls (UniformCall 80) 40))"
  let ?ds = "fst (draw_calls rng ?cs (gen w))"
  let ?g = "snd (draw_calls rng ?cs (gen w))"
  let ?p = "\<lparr>width = 80, height = 80, units = ''mm'', items = circles_of (map drawn ?ds)\<rparr>"
  have len_cs: "length ?cs = 6 * nat n"
    by (simp add: length_concat_replicate circle_calls_def)
  have len: "length ?ds = 6 * nat n"
    by (simp only: draw_calls_length len_cs)
  then have len': "length (map drawn ?ds) = 6 * nat n" by simp
  have "rand_ellipses rng svg n w
       = w\<lparr>gen := ?g, draws := draws w @ ?ds, displayed := displayed w @ [svg ?p]\<rparr>"
    by (simp add: rand_ellipses_eq split_beta Let_def)
  moreover have "int (length (items ?p)) = n"
    using circles_of_length[OF len'] assms by simp
  moreover have "list_all is_circle (items ?p)"
    by (simp add: circles_of_all_circles)
  moreover have "int (length ?ds) = 6 * n"
    using len assms by simp
  moreover have "map call_of ?ds = ?cs"
    by (rule draw_calls_calls)
  ultimately show ?thesis
    by (intro exI[of _ ?ds] exI[of _ ?p] exI[of _ ?g]) simp
qed

theorem rand_ellipses_circles_witness:
  "(0::int) \<le> 2 \<and>
   (\<exists>ds p g.
     rand_ellipses counter_random id 2 idle_process
       = idle_process\<lparr>gen := g, draws := draws idle_process @ ds,
           displayed := displayed idle_process @ [id p]\<rparr>
   \<and> width p = 80 \<and> height p = 80 \<and> units p = ''mm''
   \<and> int (length (items p)) = 2
   \<and> list_all is_circle (items p)
   \<and> items p = circles_of (map drawn ds)
   \<and> int (length ds) = 6 * 2
   \<and> map call_of ds = concat (replicate (nat 2) (circle_calls (UniformCall 80) 40)))"
  using rand_ellipses_circles[of 2 counter_random id idle_process] by simp

lemma replicate_split: "a \<le> b \<Longrightarrow> replicate b x = replicate a x @ replicate (b - a) x"
  by (metis le_add_diff_inverse replicate_add)

text \<open>
  Claim C8. Prefix stability of seeded rendering: for \<open>0 \<le> n1 \<le> n2\<close>, in whatever
  states the two calls start, the scene of \<open>rand_ellipses_seed n1\<close> is the first \<open>n1\<close>
  shapes of the scene of \<open>rand_ellipses_seed n2\<close> (same fill, position and size), and
  its draws are the first \<open>6 * n1\<close> draws of the other call: a larger \<open>n\<close> only appends.
\<close>

theorem rand_ellipses_seed_prefix:
  assumes "0 \<le> n1" and "n1 \<le> n2"
  shows "\<exists>ds1 p1 g1 ds2 p2 g2.
     rand_ellipses_seed rng svg n1 wa
       = Inr (wa\<lparr>gen := g1, draws := draws wa @ ds1, displayed := displayed wa @ [svg p1]\<rparr>)
   \<and> rand_ellipses_seed rng svg n2 wb
       = Inr (wb\<lparr>gen := g2, draws := draws wb @ ds2, displayed := displayed wb @ [svg p2]\<rparr>)
   \<and> int (length (items p1)) = n1 \<and> int (length (items p2)) = n2
   \<and> items p1 = take (nat n1) (items p2)
   \<and> ds1 = take (6 * nat n1) ds2"
proof -
  let ?six = "circle_calls (UniformCall 80) 40"
  let ?c1 = "concat (replicate (nat n1) ?six)"
  let ?c2 = "concat (replicate (nat n2) ?six)"
  let ?rest = "concat (replicate (nat n2 - nat n1) ?six)"
  let ?g0 = "seed_state rng 12345"
  let ?ds1 = "fst (draw_calls rng ?c1 ?g0)"
  let ?g1 = "snd (draw_calls rng ?c1 ?g0)"
  let ?ds2 = "fst (draw_calls rng ?c2 ?g0)"
  let ?g2 = "snd (draw_calls rng ?c2 ?g0)"
  let ?es = "fst (draw_calls rng ?rest ?g1)"
  let ?p1 = "\<lparr>width = 80, height = 80, units = ''mm'', items = circles_of (map drawn ?ds1)\<rparr>"
  let ?p2 = "\<lparr>width = 80, height = 80, units = ''mm'', items = circles_of (map drawn ?ds2)\<rparr>"
  have le: "nat n1 \<le> nat n2" using assms by simp
  have c2: "?c2 = ?c1 @ ?rest"
    by (simp add: replicate_split[OF le])
  have ds2: "?ds2 = ?ds1 @ ?es"
    unfolding c2 by (simp add: draw_calls_append split_beta Let_def)
  have len1: "length ?ds1 = 6 * nat n1"
    by (simp add: draw_calls_length length_concat_replicate circle_calls_def)
  have len2: "length ?ds2 = 6 * nat n2"
    by (simp add: draw_calls_length length_concat_replicate circle_calls_def)
  have lenm1: "length (map drawn ?ds1) = 6 * nat n1" using len1 by simp
  have lenm2: "length (map drawn ?ds2) = 6 * nat n2" using len2 by simp
  have n1: "length (circles_of (map drawn ?ds1)) = nat n1"
    by (rule circles_of_length[OF lenm1])
  have n2: "length (circles_of (map drawn ?ds2)) = nat n2"
    by (rule circles_of_length[OF lenm2])
  have items2: "circles_of (map drawn ?ds2)
      = circles_of (map drawn ?ds1) @ circles_of (map drawn ?es)"
    unfolding ds2 map_append by (rule circles_of_append[OF lenm1])
  have take_items: "circles_of (map drawn ?ds1) = take (nat n1) (circles_of (map drawn ?ds2))"
    unfolding items2 using n1 by simp
  have take_ds: "?ds1 = take (6 * nat n1) ?ds2"
    unfolding ds2 using len1 by simp
  have r1: "rand_ellipses_seed rng svg n1 wa
       = Inr (wa\<lparr>gen := ?g1, draws := draws wa @ ?ds1, displayed := displayed wa @ [svg ?p1]\<rparr>)"
    by (simp add: rand_ellipses_seed_eq split_beta Let_def)
  have r2: "rand_ellipses_seed rng svg n2 wb
       = Inr (wb\<lparr>gen := ?g2, draws := draws wb @ ?ds2, displayed := displayed wb @ [svg ?p2]\<rparr>)"
    by (simp add: rand_ellipses_seed_eq split_beta Let_def)
  have i1: "int (length (items ?p1)) = n1" using n1 assms by simp
  have i2: "int (length (items ?p2)) = n2" using n2 assms by simp
  have t: "items ?p1 = take (nat n1) (items ?p2)" using take_items by simp
  show ?thesis
    apply (rule exI[of _ ?ds1], rule exI[of _ ?p1], rule exI[of _ ?g1])
    apply (rule exI[of _ ?ds2], rule exI[of _ ?p2], rule exI[of _ ?g2])
    using r1 r2 i1 i2 t take_ds by blast
qed

theorem rand_ellipses_seed_prefix_witness:
  "(0::int) \<le> 1 \<and> (1::int) \<le> 3 \<and>
   (\<exists>ds1 p1 g1 ds2 p2 g2.
     rand_ellipses_seed counter_random id 1 idle_process
       = Inr (idle_process\<lparr>gen := g1, draws := draws idle_process @ ds1,
           displayed := displayed idle_process @ [id p1]\<rparr>)
   \<and> rand_ellipses_seed counter_random id 3 (idle_process\<lparr>gen := 99\<rparr>)
       = Inr (idle_process\<lparr>gen := 99\<rparr>\<lparr>gen := g2, draws := draws (idle_process\<lparr>gen := 99\<rparr>) @ ds2,
           displayed := displayed (idle_process\<lparr>gen := 99\<rparr>) @ [id p2]\<rparr>)
   \<and> int (length (items p1)) = 1 \<and> int (length (items p2)) = 3
   \<and> items p1 = take (nat 1) (items p2)
   \<and> ds1 = take (6 * nat 1) ds2)"
proof -
  have a: "(0::int) \<le> 1" and b: "(1::int) \<le> 3" by simp_all
  from rand_ellipses_seed_prefix[OF a b, of counter_random id idle_process "idle_process\<lparr>gen := 99\<rparr>"]
  show ?thesis using a b by blast
qed

text \<open>
  Claim C10. \<open>rand_alpha_ellipses\<close> does not validate \<open>pos_dist\<close>. Whether the call
  raises depends on the seed alone (the only error is the generator refusing a seed outside
  \<open>0 \<le> seed < 2^32\<close>), never on \<open>pos_dist\<close>; and with a seed the generator
  accepts, the two position draws of every ellipse are \<open>normal(40, 20)\<close> for every value
  of \<open>pos_dist\<close> other than the exact text \<open>uniform\<close>, and \<open>uniform(80)\<close> for that
  text only.
\<close>

theorem rand_alpha_ellipses_pos_dist:
  "isl (rand_alpha_ellipses rng svg n alpha max_size pos_dist seed w)
     = (\<not> (0 \<le> seed \<and> seed < 2 ^ 32))
   \<and> (0 \<le> seed \<and> seed < 2 ^ 32 \<longrightarrow>
       (\<exists>ds p g.
          rand_alpha_ellipses rng svg n alpha max_size pos_dist seed w
            = Inr (w\<lparr>gen := g, draws := draws w @ ds, displayed := displayed w @ [svg p]\<rparr>)
        \<and> items p = alpha_circles_of alpha (map drawn ds)
        \<and> map call_of ds
            = concat (replicate (nat n)
                (circle_calls (if pos_dist = ''uniform'' then UniformCall 80 else NormalCall 40 20)
                   max_size))))"
proof -
  let ?cs = "concat (replicate (nat n)
                (circle_calls (if pos_dist = ''uniform'' then UniformCall 80 else NormalCall 40 20)
                   max_size))"
  let ?ds = "fst (draw_calls rng ?cs (seed_state rng seed))"
  let ?g = "snd (draw_calls rng ?cs (seed_state rng seed))"
  let ?p = "\<lparr>width = 80, height = 80, units = ''mm'',
              items = alpha_circles_of alpha (map drawn ?ds)\<rparr>"
  have err: "isl (rand_alpha_ellipses rng svg n alpha max_size pos_dist seed w)
     = (\<not> (0 \<le> seed \<and> seed < 2 ^ 32))"
    by (simp add: rand_alpha_ellipses_eq split_beta Let_def)
  have ok: "\<exists>ds p g.
          rand_alpha_ellipses rng svg n alpha max_size pos_dist seed w
            = Inr (w\<lparr>gen := g, draws := draws w @ ds, displayed := displayed w @ [svg p]\<rparr>)
        \<and> items p = alpha_circles_of alpha (map drawn ds)
        \<and> map call_of ds = ?cs" if v: "0 \<le> seed \<and> seed < 2 ^ 32"
  proof -
    have "rand_alpha_ellipses rng svg n alpha max_size pos_dist seed w
            = Inr (w\<lparr>gen := ?g, draws := draws w @ ?ds, displayed := displayed w @ [svg ?p]\<rparr>)"
      using v by (simp add: rand_alpha_ellipses_eq split_beta Let_def)
    moreover have "items ?p = alpha_circles_of alpha (map drawn ?ds)" by simp
    moreover have "map call_of ?ds = ?cs" by (rule draw_calls_calls)
    ultimately show ?thesis by blast
  qed
  from err ok show ?thesis by blast
qed

theorem rand_alpha_ellipses_pos_dist_witness:
  "isl (rand_alpha_ellipses counter_random id 2 127 40 ''gaussian'' 5 idle_process)
     = (\<not> ((0::int) \<le> 5 \<and> (5::int) < 2 ^ 32))
   \<and> (0::int) \<le> 5 \<and> (5::int) < 2 ^ 32
   \<and> (\<exists>ds p g.
          rand_alpha_ellipses counter_random id 2 127 40 ''gaussian'' 5 idle_process
            = Inr (idle_process\<lparr>gen := g, draws := draws idle_process @ ds,
                displayed := displayed idle_process @ [id p]\<rparr>)
        \<and> items p = alpha_circles_of 127 (map drawn ds)
        \<and> map call_of ds
            = concat (replicate (nat 2) (circle_calls (NormalCall 40 20) 40)))"
proof -
  have v: "(0::int) \<le> 5 \<and> (5::int) < 2 ^ 32" by simp
  have ne: "''gaussian'' \<noteq> ''uniform''" by simp
  from rand_alpha_ellipses_pos_dist[of counter_random id 2 127 40 "''gaussian''" 5 idle_process]
  show ?thesis using v ne by simp
qed

section \<open>Properties of the Control Registry and the Render Dispatcher\<close>

lemma create_with_bounds:
  assumes "create k cfg = Inr c" and "cfg_bounds cfg = Some b"
  shows "numeric (ckind c)" and "cbounds c = Some b" and "bmin b \<le> bmax b"
    and "listeners c = []"
  using assms by (auto simp: create_def split: if_splits)

lemma create_listeners: "create k cfg = Inr c \<Longrightarrow> listeners c = []"
  by (auto simp: create_def split: option.splits if_splits)

lemma numeric_not_choice: "numeric k \<Longrightarrow> k \<noteq> EnumeratedChoice"
  by (cases k) simp_all

lemma create_int_slider: "create IntegerRange int_slider_config = Inr int_slider"
  by (simp add: create_def int_slider_config_def int_slider_def)

text \<open>
  Claim C4. For every Control that \<open>create\<close> returned for a configuration with bounds
  (so the bounds are valid), and every number \<open>x\<close>: if \<open>x\<close> lies in [min, max] then
  \<open>setValue\<close> succeeds and \<open>getValue\<close> then returns \<open>x\<close>; if \<open>x\<close> lies outside,
  \<open>setValue\<close> fails with \<open>OutOfRangeError\<close> and the Control, with its stored value, and
  the observers' state are unchanged.
\<close>

theorem setValue_range:
  assumes "create k cfg = Inr c" and "cfg_bounds cfg = Some b"
  shows "(bmin b \<le> x \<and> x \<le> bmax b \<longrightarrow>
            fst (setValue (NumV x) c w) = Inr ()
          \<and> getValue (fst (snd (setValue (NumV x) c w))) = NumV x)
       \<and> (x < bmin b \<or> bmax b < x \<longrightarrow>
            setValue (NumV x) c w = (Inl OutOfRangeError, c, w))"
proof -
  have n: "numeric (ckind c)" and b: "cbounds c = Some b"
    using create_with_bounds[OF assms] by simp_all
  have nc: "ckind c \<noteq> EnumeratedChoice" using n by (rule numeric_not_choice)
  show ?thesis
    using n b nc by (auto simp: setValue_def getValue_def)
qed

theorem setValue_range_witness:
  "create IntegerRange int_slider_config = Inr (int_slider :: unit control)
   \<and> cfg_bounds int_slider_config = Some \<lparr>bmin = 0, bmax = 10, bstep = Some 1\<rparr>
   \<and> (0::real) \<le> 8 \<and> (8::real) \<le> 10
   \<and> fst (setValue (NumV 8) (int_slider :: unit control) ()) = Inr ()
   \<and> getValue (fst (snd (setValue (NumV 8) (int_slider :: unit control) ()))) = NumV 8
   \<and> (10::real) < 20
   \<and> setValue (NumV 20) (int_slider :: unit control) () = (Inl OutOfRangeError, int_slider, ())"
proof -
  have c: "create IntegerRange int_slider_config = Inr (int_slider :: unit control)"
    by (rule create_int_slider)
  have b: "cfg_bounds int_slider_config = Some \<lparr>bmin = 0, bmax = 10, bstep = Some 1\<rparr>"
    by (simp add: int_slider_config_def)
  from setValue_range[OF c b, of 8 "()"] setValue_range[OF c b, of 20 "()"] c b
  show ?thesis by simp
qed

lemma fold_subscribe: "listeners (fold subscribe ls c) = listeners c @ ls"
  by (induction ls arbitrary: c) (simp_all add: subscribe_def)

lemma fold_loggers:
  "fold (\<lambda>l. l v) (map logger is) lg = lg @ map (\<lambda>i. (i, v)) is"
  by (induction "is" arbitrary: lg) (simp_all add: logger_def)

lemma setValue_fires:
  "fst (setValue v c w) = Inr () \<Longrightarrow> snd (snd (setValue v c w)) = fold (\<lambda>l. l v) (listeners c) w"
  by (auto simp: setValue_def split: if_splits)

lemma fold_subscribe_fields:
  "ckind (fold subscribe ls c) = ckind c" "cbounds (fold subscribe ls c) = cbounds c"
  "coptions (fold subscribe ls c) = coptions c"
  by (induction ls arbitrary: c) (simp_all add: subscribe_def)

text \<open>
  Claim C5. On a Control just created, with \<open>N\<close> listeners subscribed one after the other
  (listener \<open>i\<close> logs its number and the value it is called with), one successful
  \<open>setValue\<close> adds to the log exactly the entries of listeners 0, 1, ..., N - 1 in that
  order, each once, all with the new value, within the call itself.
\<close>

theorem setValue_fires_listeners_in_order:
  assumes "create k cfg = Inr c"
    and "fst (setValue v (fold subscribe (map logger [0..<N]) c) lg) = Inr ()"
  shows "snd (snd (setValue v (fold subscribe (map logger [0..<N]) c) lg))
           = lg @ map (\<lambda>i. (i, v)) [0..<N]"
  using setValue_fires[OF assms(2)] create_listeners[OF assms(1)]
  by (simp add: fold_subscribe fold_loggers)

theorem setValue_fires_listeners_in_order_witness:
  "create IntegerRange int_slider_config = Inr (int_slider :: (nat \<times> cvalue) list control)
   \<and> fst (setValue (NumV 8) (fold subscribe (map logger [0..<3]) int_slider) []) = Inr ()
   \<and> snd (snd (setValue (NumV 8) (fold subscribe (map logger [0..<3]) int_slider) []))
       = [(0, NumV 8), (1, NumV 8), (2, NumV 8)]"
proof -
  have c: "create IntegerRange int_slider_config
      = Inr (int_slider :: (nat \<times> cvalue) list control)"
    by (rule create_int_slider)
  have ok: "fst (setValue (NumV 8) (fold subscribe (map logger [0..<3]) int_slider) []) = Inr ()"
    by (simp add: setValue_def fold_subscribe_fields int_slider_def)
  have u: "[0..<3] = [0, 1, 2]" by (simp add: upt_rec)
  from setValue_fires_listeners_in_order[OF c ok] c ok
  show ?thesis by (simp add: u)
qed

lemma dispatch_in_flight: "length (in_flight h) \<le> 1 \<Longrightarrow> length (in_flight (dispatch e h)) \<le> 1"
  by (cases e) (auto split: list.splits option.splits)

lemma run_in_flight: "length (in_flight h) \<le> 1 \<Longrightarrow> length (in_flight (run evs h)) \<le> 1"
  unfolding run_def
proof (induction evs arbitrary: h)
  case Nil
  then show ?case by simp
next
  case (Cons e evs)
  have "length (in_flight (dispatch e h)) \<le> 1"
    using Cons.prems by (rule dispatch_in_flight)
  from Cons.IH[OF this] show ?case by simp
qed

lemma fires_while_running:
  "in_flight h \<noteq> [] \<Longrightarrow> ss \<noteq> [] \<Longrightarrow> fold dispatch (map Fire ss) h = h\<lparr>pending := Some (last ss)\<rparr>"
proof (induction ss arbitrary: h)
  case Nil
  then show ?case by simp
next
  case (Cons s ss)
  show ?case
  proof (cases "ss = []")
    case True
    then show ?thesis using Cons.prems by simp
  next
    case False
    have "in_flight (h\<lparr>pending := Some s\<rparr>) \<noteq> []" using Cons.prems by simp
    from Cons.IH[OF this False] show ?thesis using Cons.prems False by simp
  qed
qed

text \<open>
  Claim C3. Coalescing: after any sequence of events on a handle just bound, at most one
  invocation of the render function is in flight. If a control fires (snapshot \<open>s0\<close>)
  and, while that first invocation is executing, further firings arrive with the snapshots
  \<open>ss\<close> (one, two or more), then once everything has returned exactly two invocations
  have occurred, the first with \<open>s0\<close> and the second with the latest snapshot
  \<open>last ss\<close>; the second runs alone, after the first has returned.
\<close>

theorem dispatcher_coalesces:
  "length (in_flight (run evs bound_handle)) \<le> 1
   \<and> (ss \<noteq> [] \<longrightarrow>
        invocations (run (Fire s0 # map Fire ss @ [Return, Return]) bound_handle) = [s0, last ss]
      \<and> in_flight (run (Fire s0 # map Fire ss @ [Return]) bound_handle) = [last ss]
      \<and> in_flight (run (Fire s0 # map Fire ss @ [Return, Return]) bound_handle) = [])"
proof -
  have inv: "length (in_flight (run evs bound_handle)) \<le> 1"
    by (rule run_in_flight) (simp add: bound_handle_def)
  have sc: "invocations (run (Fire s0 # map Fire ss @ [Return, Return]) bound_handle) = [s0, last ss]
      \<and> in_flight (run (Fire s0 # map Fire ss @ [Return]) bound_handle) = [last ss]
      \<and> in_flight (run (Fire s0 # map Fire ss @ [Return, Return]) bound_handle) = []"
    if ne: "ss \<noteq> []"
  proof -
    let ?h1 = "\<lparr>in_flight = [s0], pending = None, invocations = [s0]\<rparr>"
    have h1: "dispatch (Fire s0) bound_handle = ?h1" by (simp add: bound_handle_def)
    have "in_flight ?h1 \<noteq> []" by simp
    from fires_while_running[OF this ne]
    have h2: "fold dispatch (map Fire ss) ?h1 = ?h1\<lparr>pending := Some (last ss)\<rparr>" .
    show ?thesis
      unfolding run_def by (simp add: h1 h2 del: dispatch.simps(1)) 
  qed
  from inv sc show ?thesis by blast
qed

theorem dispatcher_coalesces_witness:
  "length (in_flight (run [Fire (5::nat), Fire 7, Return, Fire 8] bound_handle)) \<le> 1
   \<and> [7, 8 :: nat] \<noteq> []
   \<and> invocations (run (Fire (5::nat) # map Fire [7, 8] @ [Return, Return]) bound_handle) = [5, 8]
   \<and> in_flight (run (Fire (5::nat) # map Fire [7, 8] @ [Return]) bound_handle) = [8]
   \<and> in_flight (run (Fire (5::nat) # map Fire [7, 8] @ [Return, Return]) bound_handle) = []"
  using dispatcher_coalesces[of "[Fire (5::nat), Fire 7, Return, Fire 8]" "[7, 8::nat]" 5] by simp

end
